theory Spec2Isabelle
  imports Main "HOL-Library.Word"
begin

unbundle bit_operations_syntax

section \<open>The GPX container reader of PyGuitarPro (guitarpro/gpx.py)\<close>

text \<open>
  The module is modelled as it runs under Python 2, the interpreter its idioms are written
  for (\<^verbatim>\<open>hex(bits)[2:].rstrip('L')\<close>, \<^verbatim>\<open>cStringIO\<close>, and
  \<^verbatim>\<open>unicode.strip(b'\x00')\<close>, which Python 3 rejects with a TypeError).
  A byte string is a list of 8-bit words, a Python integer is an \<open>int\<close> (a \<open>nat\<close> where
  the code can only produce a non-negative value), an uncaught exception is the left
  injection of a sum, and a loop that need not terminate is a function into \<open>option\<close>,
  where \<open>None\<close> stands for "does not return".
\<close>

type_synonym byte = "8 word"

datatype error = StructError | TypeError | BinasciiError | UnicodeDecodeError

subsection \<open>Python slices and struct\<close>

text \<open>
  \<^verbatim>\<open>xs[i:j]\<close>: a negative bound counts from the end, and both bounds are clamped to
  \<open>0 .. len(xs)\<close>; an empty range gives the empty sequence.
\<close>

definition py_index :: "nat \<Rightarrow> int \<Rightarrow> nat" where
  "py_index n i =
     (if i < 0 then (if i + int n < 0 then 0 else nat (i + int n))
      else if int n < i then n else nat i)"

definition py_slice :: "'a list \<Rightarrow> int \<Rightarrow> int \<Rightarrow> 'a list" where
  "py_slice xs i j = drop (py_index (length xs) i) (take (py_index (length xs) j) xs)"

text \<open>The value of four bytes read as a signed little-endian 32-bit integer (format \<^verbatim>\<open><i\<close>).\<close>

definition le32 :: "byte list \<Rightarrow> int" where
  "le32 bs =
     (let u = int (unat (bs ! 0)) + 256 * int (unat (bs ! 1)) + 65536 * int (unat (bs ! 2))
              + 16777216 * int (unat (bs ! 3))
      in if u \<ge> 2147483648 then u - 4294967296 else u)"

text \<open>\<^verbatim>\<open>struct.unpack('<i', b)\<close>: the buffer must hold exactly four bytes.\<close>

definition unpack_i :: "byte list \<Rightarrow> error + int" where
  "unpack_i bs = (if length bs = 4 then Inr (le32 bs) else Inl StructError)"

text \<open>
  \<^verbatim>\<open>struct.unpack_from('<i', data, offset)[0]\<close>: a negative offset counts from the end of
  the buffer; four bytes must be available at the resulting position.
\<close>

definition unpack_from_i :: "byte list \<Rightarrow> int \<Rightarrow> error + int" where
  "unpack_from_i data offset =
     (let n = int (length data);
          p = (if offset < 0 then offset + n else offset)
      in if p < 0 \<or> n - p < 4 then Inl StructError
         else Inr (le32 (take 4 (drop (nat p) data))))"

subsection \<open>BitFile\<close>

record BitFile =
  stream :: "byte list"
  currentByte :: "byte option"
  position :: nat

text \<open>\<^verbatim>\<open>BitFile.__init__\<close>: no current byte, position 8 so that the first bit fetches a byte.\<close>

definition BitFile_init :: "byte list \<Rightarrow> BitFile" where
  "BitFile_init s = \<lparr>stream = s, currentByte = None, position = 8\<rparr>"

text \<open>
  Lines 50 to 52 of \<^verbatim>\<open>readbit\<close>: shift and mask the current byte, advance the position.
  With no current byte \<^verbatim>\<open>None >> n\<close> is a TypeError, which the \<^verbatim>\<open>except struct.error\<close>
  clause does not catch.
\<close>

definition serve_bit :: "BitFile \<Rightarrow> error + (nat option \<times> BitFile)" where
  "serve_bit bf =
     (case currentByte bf of
        None \<Rightarrow> Inl TypeError
      | Some b \<Rightarrow>
          Inr (Some (unat (drop_bit (7 - position bf) b AND 1)),
               bf\<lparr>position := position bf + 1\<rparr>))"

text \<open>
  \<^verbatim>\<open>BitFile.readbit\<close>. At the end of the stream \<^verbatim>\<open>read(1)\<close> returns the empty string,
  \<^verbatim>\<open>struct.unpack('B', '')\<close> raises struct.error before anything is assigned, and the
  handler returns \<^verbatim>\<open>None\<close>: the state is unchanged.
\<close>

definition readbit :: "BitFile \<Rightarrow> error + (nat option \<times> BitFile)" where
  "readbit bf =
     (if position bf > 7 then
        (case stream bf of
           [] \<Rightarrow> Inr (None, bf)
         | b # rest \<Rightarrow> serve_bit (bf\<lparr>stream := rest, currentByte := Some b, position := 0\<rparr>))
      else serve_bit bf)"

text \<open>The result of the call number \<open>n + 1\<close> in a row of \<^verbatim>\<open>readbit\<close> calls.\<close>

fun readbit_nth :: "nat \<Rightarrow> BitFile \<Rightarrow> error + (nat option \<times> BitFile)" where
  "readbit_nth 0 bf = readbit bf"
| "readbit_nth (Suc n) bf =
     (case readbit bf of Inl e \<Rightarrow> Inl e | Inr (_, bf') \<Rightarrow> readbit_nth n bf')"

text \<open>The states a BitFile can be in: a fresh one, and what a \<^verbatim>\<open>readbit\<close> call leaves.\<close>

inductive reachable :: "BitFile \<Rightarrow> bool" where
  fresh: "reachable (BitFile_init s)"
| called: "reachable bf \<Longrightarrow> readbit bf = Inr (r, bf') \<Longrightarrow> reachable bf'"

text \<open>
  \<^verbatim>\<open>BitFile._encodebits\<close>: the loop over \<^verbatim>\<open>enumerate(bits)\<close>, with the length of the
  whole list, the running index and the running result.
\<close>

fun encode_loop :: "nat \<Rightarrow> bool \<Rightarrow> nat \<Rightarrow> nat \<Rightarrow> nat option list \<Rightarrow> nat" where
  "encode_loop len rv i res [] = res"
| "encode_loop len rv i res (None # bits) = encode_loop len rv (i + 1) res bits"
| "encode_loop len rv i res (Some b # bits) =
     encode_loop len rv (i + 1) (res OR push_bit (if rv then i else len - i - 1) b) bits"

definition encodebits :: "nat option list \<Rightarrow> bool \<Rightarrow> nat" where
  "encodebits bits rv = encode_loop (length bits) rv 0 0 bits"

text \<open>\<^verbatim>\<open>[self.readbit() for _ in range(size)]\<close>\<close>

fun readbit_list :: "nat \<Rightarrow> BitFile \<Rightarrow> error + (nat option list \<times> BitFile)" where
  "readbit_list 0 bf = Inr ([], bf)"
| "readbit_list (Suc n) bf =
     (case readbit bf of
        Inl e \<Rightarrow> Inl e
      | Inr (b, bf') \<Rightarrow>
          (case readbit_list n bf' of
             Inl e \<Rightarrow> Inl e
           | Inr (bs, bf'') \<Rightarrow> Inr (b # bs, bf'')))"

text \<open>\<^verbatim>\<open>list(iter(self.readbit, None))\<close>: bits up to the first \<^verbatim>\<open>None\<close>.\<close>

function readbit_all :: "BitFile \<Rightarrow> error + (nat option list \<times> BitFile)" where
  "readbit_all bf =
     (case readbit bf of
        Inl e \<Rightarrow> Inl e
      | Inr (None, bf') \<Rightarrow> Inr ([], bf')
      | Inr (Some b, bf') \<Rightarrow>
          (case readbit_all bf' of
             Inl e \<Rightarrow> Inl e
           | Inr (bs, bf'') \<Rightarrow> Inr (Some b # bs, bf'')))"
  by pat_completeness auto
termination
  by (relation "measure (\<lambda>bf. 8 * length (stream bf) + (8 - min 8 (position bf)))")
     (auto simp: readbit_def serve_bit_def split: if_splits list.splits option.splits)

text \<open>\<^verbatim>\<open>BitFile.readbits\<close>; size \<open>-1\<close> reads to the end of the stream.\<close>

definition readbits :: "int \<Rightarrow> bool \<Rightarrow> BitFile \<Rightarrow> error + (nat \<times> BitFile)" where
  "readbits sz rv bf =
     (case (if sz = -1 then readbit_all bf else readbit_list (nat sz) bf) of
        Inl e \<Rightarrow> Inl e
      | Inr (bits, bf') \<Rightarrow> Inr (encodebits bits rv, bf'))"


text \<open>
  \<^verbatim>\<open>hex(n)\<close> for a non-negative integer: \<^verbatim>\<open>0x\<close> and the lower-case digits, no leading zero,
  \<^verbatim>\<open>0x0\<close> for zero. (Python 2 appends \<^verbatim>\<open>L\<close> for a long; \<^verbatim>\<open>read\<close> strips it again.)
\<close>

definition hexchar :: "nat \<Rightarrow> char" where
  "hexchar d = ''0123456789abcdef'' ! d"

lemma div16_less: "\<not> n < 16 \<Longrightarrow> n div 16 < (n::nat)"
  by (rule div_less_dividend) simp_all

function hex_digits :: "nat \<Rightarrow> string" where
  "hex_digits n =
     (if n < 16 then [hexchar n] else hex_digits (n div 16) @ [hexchar (n mod 16)])"
  by pat_completeness auto
termination
  by (relation "measure id") (simp_all only: wf_measure in_measure id_apply div16_less)

definition py_hex :: "nat \<Rightarrow> string" where
  "py_hex n = ''0x'' @ hex_digits n"

text \<open>\<^verbatim>\<open>s.rstrip(c)\<close> for a single character \<open>c\<close>.\<close>

definition rstrip_char :: "char \<Rightarrow> string \<Rightarrow> string" where
  "rstrip_char c s = rev (dropWhile (\<lambda>x. x = c) (rev s))"

text \<open>
  \<^verbatim>\<open>binascii.unhexlify\<close>: two hexadecimal digits per byte; an odd length or a character
  that is no digit is an error.
\<close>

definition hexval :: "char \<Rightarrow> nat option" where
  "hexval c =
     (let k = of_char c :: nat in
      if 48 \<le> k \<and> k \<le> 57 then Some (k - 48)
      else if 97 \<le> k \<and> k \<le> 102 then Some (k - 87)
      else if 65 \<le> k \<and> k \<le> 70 then Some (k - 55)
      else None)"

fun unhexlify :: "string \<Rightarrow> error + byte list" where
  "unhexlify [] = Inr []"
| "unhexlify [c] = Inl BinasciiError"
| "unhexlify (a # b # cs) =
     (case (hexval a, hexval b) of
        (Some x, Some y) \<Rightarrow>
          (case unhexlify cs of
             Inl e \<Rightarrow> Inl e
           | Inr bs \<Rightarrow> Inr (of_nat (16 * x + y) # bs))
      | _ \<Rightarrow> Inl BinasciiError)"

text \<open>\<^verbatim>\<open>BitFile.read\<close>\<close>

definition read :: "int \<Rightarrow> BitFile \<Rightarrow> error + (byte list \<times> BitFile)" where
  "read sz bf =
     (case (if sz = -1 then readbits (-1) False bf else readbits (sz * 8) False bf) of
        Inl e \<Rightarrow> Inl e
      | Inr (bits, bf') \<Rightarrow>
          (let result = rstrip_char CHR ''L'' (drop 2 (py_hex bits));
               result = (if length result mod 2 \<noteq> 0 then CHR ''0'' # result else result)
           in case unhexlify result of
                Inl e \<Rightarrow> Inl e
              | Inr bs \<Rightarrow> Inr (bs, bf')))"

subsection \<open>GPXFileSystem.decompress\<close>

record dstate =
  uncompressed :: "byte list"
  fp :: BitFile

text \<open>\<^verbatim>\<open>if flag:\<close> on the result of \<^verbatim>\<open>readbit\<close>: \<^verbatim>\<open>None\<close> and 0 are false.\<close>

definition truthy :: "nat option \<Rightarrow> bool" where
  "truthy flag = (case flag of None \<Rightarrow> False | Some b \<Rightarrow> b \<noteq> 0)"

text \<open>Lines 169 to 175: the copy of a back-reference with the fields \<open>offset\<close> and \<open>size\<close>.\<close>

definition copy_back :: "byte list \<Rightarrow> nat \<Rightarrow> nat \<Rightarrow> byte list" where
  "copy_back u offset sz =
     (let position = int (length u) - int offset;
          toRead = int (min offset sz);
          subBuffer = py_slice u position (position + toRead)
      in u @ subBuffer)"

text \<open>Lines 180 and 181: \<^verbatim>\<open>for _ in range(size): uncompressed += self.fp.read(1)\<close>\<close>

fun read_literals :: "nat \<Rightarrow> byte list \<Rightarrow> BitFile \<Rightarrow> error + (byte list \<times> BitFile)" where
  "read_literals 0 u bf = Inr (u, bf)"
| "read_literals (Suc n) u bf =
     (case read 1 bf of
        Inl e \<Rightarrow> Inl e
      | Inr (bs, bf') \<Rightarrow> read_literals n (u @ bs) bf')"

text \<open>The fields of a back-reference, lines 164 to 166.\<close>

definition read_backref :: "BitFile \<Rightarrow> error + ((nat \<times> nat) \<times> BitFile)" where
  "read_backref bf =
     (case readbits 4 False bf of
        Inl e \<Rightarrow> Inl e
      | Inr (wordSize, bf1) \<Rightarrow>
          (case readbits (int wordSize) True bf1 of
             Inl e \<Rightarrow> Inl e
           | Inr (offset, bf2) \<Rightarrow>
               (case readbits (int wordSize) True bf2 of
                  Inl e \<Rightarrow> Inl e
                | Inr (sz, bf3) \<Rightarrow> Inr ((offset, sz), bf3))))"

text \<open>One round of the \<^verbatim>\<open>while\<close> loop of \<^verbatim>\<open>decompress\<close>, lines 159 to 181.\<close>

definition decompress_step :: "dstate \<Rightarrow> error + dstate" where
  "decompress_step st =
     (case readbit (fp st) of
        Inl e \<Rightarrow> Inl e
      | Inr (flag, bf1) \<Rightarrow>
          if truthy flag then
            (case read_backref bf1 of
               Inl e \<Rightarrow> Inl e
             | Inr ((offset, sz), bf2) \<Rightarrow>
                 Inr \<lparr>uncompressed = copy_back (uncompressed st) offset sz, fp = bf2\<rparr>)
          else
            (case readbits 2 True bf1 of
               Inl e \<Rightarrow> Inl e
             | Inr (sz, bf2) \<Rightarrow>
                 (case read_literals sz (uncompressed st) bf2 of
                    Inl e \<Rightarrow> Inl e
                  | Inr (u, bf3) \<Rightarrow> Inr \<lparr>uncompressed = u, fp = bf3\<rparr>)))"

text \<open>
  The loop itself, line 157. It need not terminate, so the result is an option: \<open>None\<close>
  is a run that never leaves the loop.
\<close>

partial_function (option) decompress_loop :: "int \<Rightarrow> dstate \<Rightarrow> (error + dstate) option" where
  "decompress_loop expectedLength st =
     (if int (length (uncompressed st)) < expectedLength then
        (case decompress_step st of
           Inl e \<Rightarrow> Some (Inl e)
         | Inr st' \<Rightarrow> decompress_loop expectedLength st')
      else Some (Inr st))"

text \<open>\<^verbatim>\<open>GPXFileSystem.decompress\<close>: the length header, the loop, and \<^verbatim>\<open>uncompressed[4:]\<close>.\<close>

definition decompress :: "BitFile \<Rightarrow> (error + (byte list \<times> BitFile)) option" where
  "decompress bf =
     (case read 4 bf of
        Inl e \<Rightarrow> Some (Inl e)
      | Inr (hdr, bf1) \<Rightarrow>
          (case unpack_i hdr of
             Inl e \<Rightarrow> Some (Inl e)
           | Inr expectedLength \<Rightarrow>
               (case decompress_loop expectedLength \<lparr>uncompressed = [], fp = bf1\<rparr> of
                  None \<Rightarrow> None
                | Some (Inl e) \<Rightarrow> Some (Inl e)
                | Some (Inr st) \<Rightarrow> Some (Inr (drop 4 (uncompressed st), fp st)))))"

text \<open>
  The first \<open>k\<close> rounds of the loop, run without looking at the expected length: the
  yardstick against which the loop is measured.
\<close>

fun steps :: "nat \<Rightarrow> dstate \<Rightarrow> error + dstate" where
  "steps 0 st = Inr st"
| "steps (Suc k) st =
     (case decompress_step st of Inl e \<Rightarrow> Inl e | Inr st' \<Rightarrow> steps k st')"


declare decompress_loop.simps [code]

subsection \<open>The sector table: GPXFileSystem._readUncompressedBlock\<close>

text \<open>
  A decoded name is a Python 2 unicode string: a list of code points. The table is the
  one of Python's cp1252 codec for the bytes 0x80 to 0x9F; five of them are undefined and
  make \<^verbatim>\<open>decode\<close> raise UnicodeDecodeError. Every other byte decodes to itself.
\<close>

record GPXFile =
  fileName :: "nat list"
  fileSize :: int
  data :: "byte list"

definition HEADER_BCFS :: "byte list" where
  "HEADER_BCFS = [0x42, 0x43, 0x46, 0x53]"

definition HEADER_BCFZ :: "byte list" where
  "HEADER_BCFZ = [0x42, 0x43, 0x46, 0x5A]"

definition sectorSize :: int where
  "sectorSize = 0x1000"

definition cp1252_high :: "nat option list" where
  "cp1252_high =
     [Some 8364, None, Some 8218, Some 402, Some 8222, Some 8230, Some 8224, Some 8225,
      Some 710, Some 8240, Some 352, Some 8249, Some 338, None, Some 381, None,
      None, Some 8216, Some 8217, Some 8220, Some 8221, Some 8226, Some 8211, Some 8212,
      Some 732, Some 8482, Some 353, Some 8250, Some 339, None, Some 382, Some 376]"

definition cp1252_char :: "byte \<Rightarrow> nat option" where
  "cp1252_char b =
     (let k = unat b in if 128 \<le> k \<and> k < 160 then cp1252_high ! (k - 128) else Some k)"

fun decode_cp1252 :: "byte list \<Rightarrow> error + nat list" where
  "decode_cp1252 [] = Inr []"
| "decode_cp1252 (b # bs) =
     (case cp1252_char b of
        None \<Rightarrow> Inl UnicodeDecodeError
      | Some c \<Rightarrow>
          (case decode_cp1252 bs of
             Inl e \<Rightarrow> Inl e
           | Inr cs \<Rightarrow> Inr (c # cs)))"

text \<open>\<^verbatim>\<open>s.strip(b'\x00')\<close>: the NUL characters at both ends are removed.\<close>

definition strip_nul :: "nat list \<Rightarrow> nat list" where
  "strip_nul s = rev (dropWhile (\<lambda>c. c = 0) (rev (dropWhile (\<lambda>c. c = 0) s)))"

definition readInt :: "byte list \<Rightarrow> int \<Rightarrow> error + int" where
  "readInt buf offset = unpack_from_i buf offset"

definition readString :: "byte list \<Rightarrow> int \<Rightarrow> int \<Rightarrow> error + nat list" where
  "readString buf offset len = decode_cp1252 (py_slice buf offset (offset + len))"

lemma readInt_in_range: "readInt buf p = Inr v \<Longrightarrow> p \<le> int (length buf) - 4"
  by (auto simp: readInt_def unpack_from_i_def Let_def split: if_splits)

text \<open>
  The inner \<^verbatim>\<open>while sector != 0\<close> loop, lines 227 to 235. It returns the offset it leaves
  behind and the data it has gathered. Each round reads the next index four bytes further
  on, so it ends: with the index 0, or with the struct.error of a read past the buffer.
\<close>

function walk_sectors ::
  "byte list \<Rightarrow> int \<Rightarrow> int \<Rightarrow> int \<Rightarrow> int \<Rightarrow> byte list \<Rightarrow> error + (int \<times> byte list)" where
  "walk_sectors buf dataPointerOffset sectorCount sector offset fileData =
     (if sector \<noteq> 0 then
        (case readInt buf (dataPointerOffset + 4 * (sectorCount + 1)) of
           Inl e \<Rightarrow> Inl e
         | Inr sector' \<Rightarrow>
             walk_sectors buf dataPointerOffset (sectorCount + 1) sector'
               (sector * sectorSize)
               (fileData @ py_slice buf (sector * sectorSize) (sector * sectorSize + sectorSize)))
      else Inr (offset, fileData))"
  by pat_completeness auto
termination
proof (relation "measure (\<lambda>(buf, dpo, sc, _). nat (int (length buf) - (dpo + 4 * sc)))")
  show "wf (measure (\<lambda>(buf, dpo, sc, _). nat (int (length buf) - (dpo + 4 * sc))))"
    by (rule wf_measure)
next
  fix buf :: "byte list" and dataPointerOffset sectorCount sector offset :: int
    and fileData :: "byte list" and sector' :: int
  assume "readInt buf (dataPointerOffset + 4 * (sectorCount + 1)) = Inr sector'"
  then have "dataPointerOffset + 4 * (sectorCount + 1) \<le> int (length buf) - 4"
    by (rule readInt_in_range)
  then show "((buf, dataPointerOffset, sectorCount + 1, sector', sector * sectorSize,
               fileData @ py_slice buf (sector * sectorSize) (sector * sectorSize + sectorSize)),
              (buf, dataPointerOffset, sectorCount, sector, offset, fileData))
             \<in> measure (\<lambda>(buf, dpo, sc, _). nat (int (length buf) - (dpo + 4 * sc)))"
    by simp
qed

text \<open>Lines 212 to 237: the body of \<^verbatim>\<open>if entryType == 2\<close>, up to the new GPXFile.\<close>

definition read_file_entry :: "byte list \<Rightarrow> int \<Rightarrow> error + (GPXFile \<times> int)" where
  "read_file_entry buf offset =
     (case readString buf (offset + 0x04) 127 of
        Inl e \<Rightarrow> Inl e
      | Inr s \<Rightarrow>
          (case readInt buf (offset + 0x8C) of
             Inl e \<Rightarrow> Inl e
           | Inr fSize \<Rightarrow>
               (case readInt buf (offset + 0x94 + 4 * 1) of
                  Inl e \<Rightarrow> Inl e
                | Inr sector \<Rightarrow>
                    (case walk_sectors buf (offset + 0x94) 1 sector offset [] of
                       Inl e \<Rightarrow> Inl e
                     | Inr (offset', fileData) \<Rightarrow>
                         Inr (\<lparr>fileName = strip_nul s, fileSize = fSize, data = fileData\<rparr>,
                              offset')))))"

text \<open>
  One round of the outer loop, lines 195 to 240: the offset of the next round and the
  file list.
\<close>

definition scan_step :: "byte list \<Rightarrow> int \<Rightarrow> GPXFile list \<Rightarrow> error + (int \<times> GPXFile list)" where
  "scan_step buf offset filelist =
     (case readInt buf offset of
        Inl e \<Rightarrow> Inl e
      | Inr entryType \<Rightarrow>
          if entryType = 2 then
            (case read_file_entry buf offset of
               Inl e \<Rightarrow> Inl e
             | Inr (gpxFile, offset') \<Rightarrow> Inr (offset' + sectorSize, filelist @ [gpxFile]))
          else Inr (offset + sectorSize, filelist))"

text \<open>
  The outer loop, line 194. A sector chain can send the offset backwards, so the loop need
  not terminate.
\<close>

partial_function (option) scan_loop ::
  "byte list \<Rightarrow> int \<Rightarrow> GPXFile list \<Rightarrow> (error + GPXFile list) option" where
  "scan_loop buf offset filelist =
     (if offset + 3 < int (length buf) then
        (case scan_step buf offset filelist of
           Inl e \<Rightarrow> Some (Inl e)
         | Inr (offset', filelist') \<Rightarrow> scan_loop buf offset' filelist')
      else Some (Inr filelist))"

declare scan_loop.simps [code]

definition readUncompressedBlock :: "byte list \<Rightarrow> (error + GPXFile list) option" where
  "readUncompressedBlock buf = scan_loop buf sectorSize []"

text \<open>\<^verbatim>\<open>GPXFileSystem._readContents\<close>, with the file list it leaves as the result.\<close>

definition readContents :: "BitFile \<Rightarrow> (error + GPXFile list) option" where
  "readContents bf =
     (case read 4 bf of
        Inl e \<Rightarrow> Some (Inl e)
      | Inr (header, bf1) \<Rightarrow>
          if header = HEADER_BCFZ then
            (case decompress bf1 of
               None \<Rightarrow> None
             | Some (Inl e) \<Rightarrow> Some (Inl e)
             | Some (Inr (buf, bf2)) \<Rightarrow> readUncompressedBlock buf)
          else if header = HEADER_BCFS then
            (case read (-1) bf1 of
               Inl e \<Rightarrow> Some (Inl e)
             | Inr (buf, bf2) \<Rightarrow> readUncompressedBlock buf)
          else Some (Inr []))"

text \<open>
  \<^verbatim>\<open>GPXFileSystem(stream)\<close> for an open byte source, in the default mode \<^verbatim>\<open>'r'\<close>: the file
  list of the new object, or the exception that leaves the constructor.
\<close>

definition GPXFileSystem_init :: "byte list \<Rightarrow> (error + GPXFile list) option" where
  "GPXFileSystem_init s = readContents (BitFile_init s)"


section \<open>Properties\<close>

subsection \<open>The bit reader\<close>

text \<open>
  In every state a BitFile can reach, a position of at most 7 comes with a current byte:
  the TypeError branch of \<open>serve_bit\<close> is never taken.
\<close>

definition bf_ok :: "BitFile \<Rightarrow> bool" where
  "bf_ok bf = (position bf \<le> 7 \<longrightarrow> currentByte bf \<noteq> None)"

lemma bit_le_1: "unat ((w::byte) AND 1) \<le> 1"
  by (metis unsigned_1 word_and_le1 word_le_nat_alt)

lemma bit01: "unat ((w::byte) AND 1) = 0 \<or> unat (w AND 1) = 1"
  using bit_le_1 [of w] by arith

lemma bf_ok_init: "bf_ok (BitFile_init s)"
  by (simp add: bf_ok_def BitFile_init_def)

lemma bf_ok_step: "bf_ok bf \<Longrightarrow> readbit bf = Inr (r, bf') \<Longrightarrow> bf_ok bf'"
  by (auto simp: bf_ok_def readbit_def serve_bit_def split: list.splits option.splits if_splits)

lemma readbit_ok: "bf_ok bf \<Longrightarrow> \<exists>r bf'. readbit bf = Inr (r, bf') \<and> bf_ok bf'"
  by (auto simp: bf_ok_def readbit_def serve_bit_def split: list.splits option.splits)

lemma reachable_ok: "reachable bf \<Longrightarrow> bf_ok bf"
  by (induction rule: reachable.induct) (auto simp: bf_ok_init intro: bf_ok_step)

lemma readbit_exhausted:
  "position bf > 7 \<Longrightarrow> stream bf = [] \<Longrightarrow> readbit bf = Inr (None, bf)"
  by (simp add: readbit_def)

lemma readbit_nth_exhausted:
  "position bf > 7 \<Longrightarrow> stream bf = [] \<Longrightarrow> readbit_nth n bf = Inr (None, bf)"
  by (induction n) (simp_all add: readbit_exhausted)

text \<open>
  C10. \<^verbatim>\<open>readbit\<close> never raises on a BitFile that was created by \<^verbatim>\<open>__init__\<close> and used
  through \<^verbatim>\<open>readbit\<close> only. While a bit is left (in the current byte or in the source)
  it returns 0 or 1; once the source is exhausted it returns \<^verbatim>\<open>None\<close>, leaves the state
  as it is, and so does every later call. A call takes at most one byte from the source,
  and none when it is served from the current byte (position 0 to 7).
\<close>

theorem readbit_total:
  assumes "reachable bf"
  shows "\<exists>r bf'. readbit bf = Inr (r, bf') \<and>
           (if position bf \<le> 7 \<or> stream bf \<noteq> []
            then r = Some 0 \<or> r = Some 1
            else r = None \<and> bf' = bf \<and> (\<forall>n. readbit_nth n bf' = Inr (None, bf'))) \<and>
           (stream bf' = stream bf \<or> (\<exists>b. stream bf = b # stream bf')) \<and>
           (position bf \<le> 7 \<longrightarrow> stream bf' = stream bf)"
proof -
  have ok: "bf_ok bf" using assms by (rule reachable_ok)
  show ?thesis
  proof (cases "position bf \<le> 7")
    case True
    with ok obtain b where b: "currentByte bf = Some b" by (auto simp: bf_ok_def)
    from True b bit01 [of "drop_bit (7 - position bf) b"] show ?thesis
      by (auto simp: readbit_def serve_bit_def)
  next
    case False
    show ?thesis
    proof (cases "stream bf")
      case Nil
      with False show ?thesis
        by (simp add: readbit_exhausted readbit_nth_exhausted)
    next
      case (Cons b rest)
      with False bit01 [of "drop_bit 7 b"] show ?thesis
        by (auto simp: readbit_def serve_bit_def)
    qed
  qed
qed

theorem readbit_total_witness:
  "reachable (BitFile_init [0x80]) \<and>
   readbit (BitFile_init [0x80]) =
     Inr (Some 1, \<lparr>stream = [], currentByte = Some 0x80, position = 1\<rparr>)"
proof -
  have r: "reachable (BitFile_init [0x80])" by (rule reachable.fresh)
  have e: "readbit (BitFile_init [0x80]) =
             Inr (Some 1, \<lparr>stream = [], currentByte = Some 0x80, position = 1\<rparr>)"
    by code_simp
  from readbit_total [OF r] r e show ?thesis by simp
qed


subsection \<open>Evaluating the bit reader on concrete states\<close>

lemma readbit_fetch:
  "7 < p \<Longrightarrow> readbit \<lparr>stream = b # rest, currentByte = c, position = p\<rparr> =
     Inr (Some (unat (drop_bit 7 b AND 1)),
          \<lparr>stream = rest, currentByte = Some b, position = 1\<rparr>)"
  by (simp add: readbit_def serve_bit_def)

lemma readbit_serve:
  "p \<le> 7 \<Longrightarrow> readbit \<lparr>stream = s, currentByte = Some b, position = p\<rparr> =
     Inr (Some (unat (drop_bit (7 - p) b AND 1)),
          \<lparr>stream = s, currentByte = Some b, position = p + 1\<rparr>)"
  by (simp add: readbit_def serve_bit_def)

lemma readbit_end:
  "7 < p \<Longrightarrow> readbit \<lparr>stream = [], currentByte = c, position = p\<rparr> =
     Inr (None, \<lparr>stream = [], currentByte = c, position = p\<rparr>)"
  by (simp add: readbit_def)

lemma readbit_list_numeral:
  "readbit_list (numeral k) bf =
     (case readbit bf of
        Inl e \<Rightarrow> Inl e
      | Inr (b, bf') \<Rightarrow>
          (case readbit_list (pred_numeral k) bf' of
             Inl e \<Rightarrow> Inl e
           | Inr (bs, bf'') \<Rightarrow> Inr (b # bs, bf'')))"
  by (simp add: numeral_eq_Suc)

lemmas bit_eval =
  readbits_def encodebits_def readbit_fetch readbit_serve readbit_end readbit_list_numeral

subsection \<open>The bit reader never fails on a reachable state\<close>

lemma readbit_list_ok:
  "bf_ok bf \<Longrightarrow> \<exists>bits bf'. readbit_list n bf = Inr (bits, bf') \<and> bf_ok bf'"
proof (induction n arbitrary: bf)
  case 0
  then show ?case by simp
next
  case (Suc n)
  from readbit_ok [OF Suc.prems] obtain r bf1
    where 1: "readbit bf = Inr (r, bf1)" and ok1: "bf_ok bf1" by blast
  from Suc.IH [OF ok1] obtain bits bf2
    where 2: "readbit_list n bf1 = Inr (bits, bf2)" and ok2: "bf_ok bf2" by blast
  from 1 2 ok2 show ?case by simp
qed

lemma readbits_nat_ok:
  "bf_ok bf \<Longrightarrow> \<exists>v bf'. readbits (int n) rv bf = Inr (v, bf') \<and> bf_ok bf'"
proof -
  assume "bf_ok bf"
  from readbit_list_ok [OF this, of n] obtain bits bf'
    where "readbit_list n bf = Inr (bits, bf')" and "bf_ok bf'" by blast
  then show ?thesis by (simp add: readbits_def)
qed

lemma read_backref_ok:
  assumes "bf_ok bf"
  shows "\<exists>offset sz bf'. read_backref bf = Inr ((offset, sz), bf') \<and> bf_ok bf'"
proof -
  from readbits_nat_ok [OF assms, of 4 False] obtain w bf1
    where 1: "readbits 4 False bf = Inr (w, bf1)" and ok1: "bf_ok bf1" by auto
  from readbits_nat_ok [OF ok1, of w True] obtain offset bf2
    where 2: "readbits (int w) True bf1 = Inr (offset, bf2)" and ok2: "bf_ok bf2" by blast
  from readbits_nat_ok [OF ok2, of w True] obtain sz bf3
    where 3: "readbits (int w) True bf2 = Inr (sz, bf3)" and ok3: "bf_ok bf3" by blast
  from 1 2 3 ok3 show ?thesis by (simp add: read_backref_def)
qed

subsection \<open>Back-references\<close>

lemma py_index_nat: "py_index n (int i) = min i n"
  by (simp add: py_index_def)

lemma py_slice_inside:
  "i \<le> j \<Longrightarrow> j \<le> length xs \<Longrightarrow> py_slice xs (int i) (int j) = take (j - i) (drop i xs)"
  by (simp add: py_slice_def py_index_nat drop_take)

lemma copy_back_inside:
  assumes "offset \<le> length u"
  shows "copy_back u offset sz = u @ take (min offset sz) (drop (length u - offset) u)"
proof -
  let ?p = "length u - offset"
  have p: "int (length u) - int offset = int ?p" using assms by simp
  have q: "int ?p + int (min offset sz) = int (?p + min offset sz)" by simp
  have "py_slice u (int ?p) (int (?p + min offset sz)) = take (?p + min offset sz - ?p) (drop ?p u)"
    using assms by (intro py_slice_inside) auto
  then show ?thesis by (simp add: copy_back_def Let_def p q del: of_nat_add of_nat_min)
qed

lemma py_slice_length_le:
  assumes "0 \<le> m"
  shows "int (length (py_slice xs i (i + m))) \<le> m"
  using assms by (auto simp: py_slice_def py_index_def)


text \<open>The two concrete steps used below: bits \<open>1 0011 001 011\<close> and \<open>1 0010 11 11\<close>.\<close>

lemma flag_9960:
  "readbit (BitFile_init [0x99, 0x60]) =
     Inr (Some 1, \<lparr>stream = [0x60], currentByte = Some 0x99, position = Suc 0\<rparr>)"
  by (simp add: BitFile_init_def bit_eval)

lemma fields_9960:
  "read_backref \<lparr>stream = [0x60], currentByte = Some 0x99, position = Suc 0\<rparr> =
     Inr ((4, 6), \<lparr>stream = [], currentByte = Some 0x60, position = 3\<rparr>)"
proof -
  have 1: "readbits 4 False \<lparr>stream = [0x60], currentByte = Some 0x99, position = Suc 0\<rparr> =
             Inr (3, \<lparr>stream = [0x60], currentByte = Some 0x99, position = 5\<rparr>)"
    by (simp add: bit_eval)
  have 2: "readbits 3 True \<lparr>stream = [0x60], currentByte = Some 0x99, position = 5\<rparr> =
             Inr (4, \<lparr>stream = [0x60], currentByte = Some 0x99, position = 8\<rparr>)"
    by (simp add: bit_eval)
  have 3: "readbits 3 True \<lparr>stream = [0x60], currentByte = Some 0x99, position = 8\<rparr> =
             Inr (6, \<lparr>stream = [], currentByte = Some 0x60, position = 3\<rparr>)"
    by (simp add: bit_eval)
  show ?thesis by (simp add: read_backref_def 1 2 3)
qed

lemma flag_9780:
  "readbit (BitFile_init [0x97, 0x80]) =
     Inr (Some 1, \<lparr>stream = [0x80], currentByte = Some 0x97, position = Suc 0\<rparr>)"
  by (simp add: BitFile_init_def bit_eval)

lemma fields_9780:
  "read_backref \<lparr>stream = [0x80], currentByte = Some 0x97, position = Suc 0\<rparr> =
     Inr ((3, 3), \<lparr>stream = [], currentByte = Some 0x80, position = Suc 0\<rparr>)"
proof -
  have 1: "readbits 4 False \<lparr>stream = [0x80], currentByte = Some 0x97, position = Suc 0\<rparr> =
             Inr (2, \<lparr>stream = [0x80], currentByte = Some 0x97, position = 5\<rparr>)"
    by (simp add: bit_eval)
  have 2: "readbits 2 True \<lparr>stream = [0x80], currentByte = Some 0x97, position = 5\<rparr> =
             Inr (3, \<lparr>stream = [0x80], currentByte = Some 0x97, position = 7\<rparr>)"
    by (simp add: bit_eval)
  have 3: "readbits 2 True \<lparr>stream = [0x80], currentByte = Some 0x97, position = 7\<rparr> =
             Inr (3, \<lparr>stream = [], currentByte = Some 0x80, position = Suc 0\<rparr>)"
    by (simp add: bit_eval)
  show ?thesis by (simp add: read_backref_def 1 2 3)
qed

lemma copy_abcd_4_6:
  "copy_back [97, 98, 99, 100] 4 6 = [97, 98, 99, 100, 97, 98, 99, 100 :: byte]"
  by (simp add: copy_back_def py_slice_def py_index_def)

lemma copy_ab_3_3: "copy_back [97, 98] 3 3 = [97, 98, 98 :: byte]"
  by (simp add: copy_back_def py_slice_def py_index_def)

text \<open>
  C2, as stated, fails: with the buffer \<open>abcd\<close> and the fields offset 4 and size 6 the step
  leaves \<open>abcdabcd\<close>, not \<open>abcdabcdab\<close>.
\<close>

theorem backref_overlap_counterexample:
  "readbit (BitFile_init [0x99, 0x60]) =
     Inr (Some 1, \<lparr>stream = [0x60], currentByte = Some 0x99, position = 1\<rparr>) \<and>
   read_backref \<lparr>stream = [0x60], currentByte = Some 0x99, position = 1\<rparr> =
     Inr ((4, 6), \<lparr>stream = [], currentByte = Some 0x60, position = 3\<rparr>) \<and>
   decompress_step \<lparr>uncompressed = [97, 98, 99, 100], fp = BitFile_init [0x99, 0x60]\<rparr> =
     Inr \<lparr>uncompressed = [97, 98, 99, 100, 97, 98, 99, 100],
          fp = \<lparr>stream = [], currentByte = Some 0x60, position = 3\<rparr>\<rparr> \<and>
   [97, 98, 99, 100, 97, 98, 99, 100] \<noteq> [97, 98, 99, 100] @ [97, 98, 99, 100, 97, 98 :: byte]"
  by (simp add: decompress_step_def flag_9960 fields_9960 copy_abcd_4_6 truthy_def)

text \<open>
  C2, amended: a back-reference step with offset 4 and size 6 on the buffer \<open>abcd\<close> appends
  the 4 bytes \<open>abcd\<close>, that is min(offset, size) bytes of the output produced before the
  step; it reads none of the bytes it writes.
\<close>

theorem backref_abcd_4_6:
  assumes "uncompressed st = [97, 98, 99, 100]"
    and "readbit (fp st) = Inr (flag, bf1)" and "truthy flag"
    and "read_backref bf1 = Inr ((4, 6), bf2)"
  shows "decompress_step st =
           Inr \<lparr>uncompressed = [97, 98, 99, 100] @ [97, 98, 99, 100], fp = bf2\<rparr>"
  using assms by (simp add: decompress_step_def copy_abcd_4_6)

theorem backref_abcd_4_6_witness:
  "decompress_step \<lparr>uncompressed = [97, 98, 99, 100], fp = BitFile_init [0x99, 0x60]\<rparr> =
     Inr \<lparr>uncompressed = [97, 98, 99, 100] @ [97, 98, 99, 100],
          fp = \<lparr>stream = [], currentByte = Some 0x60, position = 3\<rparr>\<rparr>"
  by (rule backref_abcd_4_6 [where flag = "Some 1"
        and ?bf1.0 = "\<lparr>stream = [0x60], currentByte = Some 0x99, position = Suc 0\<rparr>"])
     (simp_all add: flag_9960 fields_9960 truthy_def)

text \<open>
  C3. A back-reference step with the fields \<open>offset\<close> and \<open>size\<close>, where \<open>offset\<close> is at
  most the length \<open>L\<close> of the output, appends exactly the slice
  \<open>buffer[L - offset : L - offset + min offset size]\<close>: that is \<open>min offset size\<close> bytes,
  and the slice ends at or before \<open>L\<close>.
\<close>

theorem backref_step_inside:
  assumes "readbit (fp st) = Inr (flag, bf1)" and "truthy flag"
    and "read_backref bf1 = Inr ((offset, sz), bf2)"
    and "offset \<le> length (uncompressed st)"
  shows "decompress_step st =
           Inr \<lparr>uncompressed = uncompressed st @
                   take (min offset sz) (drop (length (uncompressed st) - offset) (uncompressed st)),
                fp = bf2\<rparr> \<and>
         take (min offset sz) (drop (length (uncompressed st) - offset) (uncompressed st)) =
           py_slice (uncompressed st) (int (length (uncompressed st)) - int offset)
             (int (length (uncompressed st)) - int offset + int (min offset sz)) \<and>
         length (take (min offset sz) (drop (length (uncompressed st) - offset) (uncompressed st)))
           = min offset sz \<and>
         length (uncompressed st) - offset + min offset sz \<le> length (uncompressed st)"
proof -
  from assms(4) have c: "copy_back (uncompressed st) offset sz =
      uncompressed st @ take (min offset sz) (drop (length (uncompressed st) - offset) (uncompressed st))"
    by (rule copy_back_inside)
  then have s: "take (min offset sz) (drop (length (uncompressed st) - offset) (uncompressed st)) =
           py_slice (uncompressed st) (int (length (uncompressed st)) - int offset)
             (int (length (uncompressed st)) - int offset + int (min offset sz))"
    by (simp add: copy_back_def Let_def del: of_nat_min)
  from assms(1-3) c have "decompress_step st =
           Inr \<lparr>uncompressed = uncompressed st @
                   take (min offset sz) (drop (length (uncompressed st) - offset) (uncompressed st)),
                fp = bf2\<rparr>"
    by (simp add: decompress_step_def)
  moreover from assms(4) have
    "length (take (min offset sz) (drop (length (uncompressed st) - offset) (uncompressed st)))
       = min offset sz" by auto
  moreover from assms(4) have
    "length (uncompressed st) - offset + min offset sz \<le> length (uncompressed st)" by auto
  ultimately show ?thesis using s by blast
qed

theorem backref_step_inside_witness:
  "(4::nat) \<le> length [97, 98, 99, 100 :: byte] \<and>
   decompress_step \<lparr>uncompressed = [97, 98, 99, 100], fp = BitFile_init [0x99, 0x60]\<rparr> =
     Inr \<lparr>uncompressed = [97, 98, 99, 100, 97, 98, 99, 100],
          fp = \<lparr>stream = [], currentByte = Some 0x60, position = 3\<rparr>\<rparr>"
  using backref_step_inside [where st = "\<lparr>uncompressed = [97, 98, 99, 100], fp = BitFile_init [0x99, 0x60]\<rparr>"
      and flag = "Some 1" and offset = 4 and sz = 6
      and ?bf1.0 = "\<lparr>stream = [0x60], currentByte = Some 0x99, position = Suc 0\<rparr>"
      and ?bf2.0 = "\<lparr>stream = [], currentByte = Some 0x60, position = 3\<rparr>"]
  by (simp add: flag_9960 fields_9960 truthy_def)


lemma take_length_take: "take (length (take k zs)) zs = take k zs"
  by (cases "k \<le> length zs") (simp_all add: min_def)

lemma py_slice_shape:
  "py_slice xs i j = take (length (py_slice xs i j)) (drop (py_index (length xs) i) xs)"
proof -
  have "py_slice xs i j =
          take (py_index (length xs) j - py_index (length xs) i) (drop (py_index (length xs) i) xs)"
    by (simp add: py_slice_def drop_take)
  then show ?thesis by (metis take_length_take)
qed

text \<open>
  C8, as stated, fails: with the buffer \<open>ab\<close> and the fields offset 3 and size 3 the start
  of the copy is \<open>2 - 3 = -1\<close>, and the step reports no error: Python's slice \<open>[-1:2]\<close>
  is the last byte, and the step leaves \<open>abb\<close>.
\<close>

theorem backref_negative_start_counterexample:
  "read_backref \<lparr>stream = [0x80], currentByte = Some 0x97, position = 1\<rparr> =
     Inr ((3, 3), \<lparr>stream = [], currentByte = Some 0x80, position = 1\<rparr>) \<and>
   int (length [97, 98 :: byte]) - int 3 < 0 \<and>
   decompress_step \<lparr>uncompressed = [97, 98], fp = BitFile_init [0x97, 0x80]\<rparr> =
     Inr \<lparr>uncompressed = [97, 98, 98],
          fp = \<lparr>stream = [], currentByte = Some 0x80, position = 1\<rparr>\<rparr>"
  by (simp add: decompress_step_def flag_9780 fields_9780 copy_ab_3_3 truthy_def)

text \<open>
  C8, amended: the Decompressor does not check the source region of a back-reference and
  reports no error for it. Whatever the fields are, the step completes and appends the
  Python slice \<open>buffer[L - offset : L - offset + min offset size]\<close>, where a negative bound
  counts from the end of the buffer and is clamped to 0: a run of consecutive bytes of the
  output produced so far, at most \<open>min offset size\<close> long. The region never extends beyond
  the current length \<open>L\<close>, and nothing outside the buffer is read.
\<close>

theorem backref_unchecked:
  assumes "reachable (fp st)" and "readbit (fp st) = Inr (flag, bf1)" and "truthy flag"
  shows "\<exists>offset sz bf2 i j.
           read_backref bf1 = Inr ((offset, sz), bf2) \<and>
           decompress_step st =
             Inr \<lparr>uncompressed = uncompressed st @
                     py_slice (uncompressed st) (int (length (uncompressed st)) - int offset)
                       (int (length (uncompressed st)) - int offset + int (min offset sz)),
                  fp = bf2\<rparr> \<and>
           py_slice (uncompressed st) (int (length (uncompressed st)) - int offset)
             (int (length (uncompressed st)) - int offset + int (min offset sz))
             = take j (drop i (uncompressed st)) \<and>
           j \<le> min offset sz \<and>
           int (length (uncompressed st)) - int offset + int (min offset sz)
             \<le> int (length (uncompressed st))"
proof -
  let ?u = "uncompressed st"
  have "bf_ok (fp st)" using assms(1) by (rule reachable_ok)
  then have "bf_ok bf1" using assms(2) by (rule bf_ok_step)
  from read_backref_ok [OF this] obtain offset sz bf2
    where rb: "read_backref bf1 = Inr ((offset, sz), bf2)" by blast
  let ?p = "int (length ?u) - int offset"
  let ?s = "py_slice ?u ?p (?p + int (min offset sz))"
  have step: "decompress_step st = Inr \<lparr>uncompressed = ?u @ ?s, fp = bf2\<rparr>"
    using assms(2,3) rb by (simp add: decompress_step_def copy_back_def Let_def del: of_nat_min)
  have len: "int (length ?s) \<le> int (min offset sz)"
    by (rule py_slice_length_le) simp
  have shape: "?s = take (length ?s) (drop (py_index (length ?u) ?p) ?u)"
    by (rule py_slice_shape)
  have bound: "?p + int (min offset sz) \<le> int (length ?u)" by simp
  from len have "length ?s \<le> min offset sz" by linarith
  with rb step shape bound show ?thesis by blast
qed

theorem backref_unchecked_witness:
  "reachable (BitFile_init [0x97, 0x80]) \<and>
   (\<exists>st'. decompress_step \<lparr>uncompressed = [97, 98], fp = BitFile_init [0x97, 0x80]\<rparr> = Inr st')"
proof -
  let ?st = "\<lparr>uncompressed = [97, 98], fp = BitFile_init [0x97, 0x80]\<rparr>"
  have r: "reachable (fp ?st)" by (simp add: reachable.fresh)
  have f: "readbit (fp ?st) =
             Inr (Some 1, \<lparr>stream = [0x80], currentByte = Some 0x97, position = Suc 0\<rparr>)"
    by (simp add: flag_9780)
  have t: "truthy (Some 1)" by (simp add: truthy_def)
  from backref_unchecked [OF r f t] have "\<exists>st'. decompress_step ?st = Inr st'" by blast
  with r show ?thesis by simp
qed

subsection \<open>BitFile.read\<close>

lemma readbits_0041:
  "readbits 16 False (BitFile_init [0x00, 0x41]) =
     Inr (65, \<lparr>stream = [], currentByte = Some 0x41, position = 8\<rparr>)"
  by (simp add: BitFile_init_def bit_eval)

lemma py_hex_65: "py_hex 65 = ''0x41''"
  by (simp add: py_hex_def hex_digits.simps hexchar_def)

text \<open>
  C6 at the source bytes \<open>00 41\<close>: \<^verbatim>\<open>read(2)\<close> returns the single byte \<open>41\<close>. The packed
  integer is rendered by \<^verbatim>\<open>hex\<close>, which drops leading zeros, and only padded to an even
  number of digits.
\<close>

theorem read_drops_leading_zero_bytes:
  "read 2 (BitFile_init [0x00, 0x41]) =
     Inr ([0x41], \<lparr>stream = [], currentByte = Some 0x41, position = 8\<rparr>)"
  by (simp add: read_def readbits_0041 py_hex_65 rstrip_char_def hexval_def)


subsection \<open>The decompression loop\<close>

lemma loop_exit:
  "\<not> int (length (uncompressed st)) < e \<Longrightarrow> decompress_loop e st = Some (Inr st)"
  by (subst decompress_loop.simps) simp

lemma loop_step:
  "int (length (uncompressed st)) < e \<Longrightarrow> decompress_step st = Inr st1 \<Longrightarrow>
   decompress_loop e st = decompress_loop e st1"
  by (subst decompress_loop.simps) simp

lemma loop_error:
  "int (length (uncompressed st)) < e \<Longrightarrow> decompress_step st = Inl err \<Longrightarrow>
   decompress_loop e st = Some (Inl err)"
  by (subst decompress_loop.simps) simp

lemma loop_of_steps:
  assumes "steps k st = Inr st'"
    and "\<forall>j<k. \<exists>sj. steps j st = Inr sj \<and> int (length (uncompressed sj)) < e"
    and "\<not> int (length (uncompressed st')) < e"
  shows "decompress_loop e st = Some (Inr st')"
  using assms
proof (induction k arbitrary: st)
  case 0
  then show ?case by (simp add: loop_exit)
next
  case (Suc k)
  from Suc.prems(1) obtain s1 where s1: "decompress_step st = Inr s1" and rest: "steps k s1 = Inr st'"
    by (auto split: sum.splits)
  from Suc.prems(2) have "\<exists>sj. steps 0 st = Inr sj \<and> int (length (uncompressed sj)) < e"
    by blast
  then have short: "int (length (uncompressed st)) < e" by simp
  have "\<forall>j<k. \<exists>sj. steps j s1 = Inr sj \<and> int (length (uncompressed sj)) < e"
  proof (intro allI impI)
    fix j assume "j < k"
    then have "Suc j < Suc k" by simp
    with Suc.prems(2) obtain sj
      where "steps (Suc j) st = Inr sj" and "int (length (uncompressed sj)) < e" by blast
    with s1 show "\<exists>sj. steps j s1 = Inr sj \<and> int (length (uncompressed sj)) < e" by simp
  qed
  from Suc.IH [OF rest this Suc.prems(3)] short s1 show ?case by (simp add: loop_step)
qed

lemma steps_of_loop:
  assumes "decompress_loop e st = Some r"
  shows "\<forall>st'. r = Inr st' \<longrightarrow>
           (\<exists>k. steps k st = Inr st' \<and>
                (\<forall>j<k. \<exists>sj. steps j st = Inr sj \<and> int (length (uncompressed sj)) < e) \<and>
                \<not> int (length (uncompressed st')) < e)"
proof (rule decompress_loop.raw_induct [rotated 1, OF assms,
      where P = "\<lambda>e st r. \<forall>st'. r = Inr st' \<longrightarrow>
           (\<exists>k. steps k st = Inr st' \<and>
                (\<forall>j<k. \<exists>sj. steps j st = Inr sj \<and> int (length (uncompressed sj)) < e) \<and>
                \<not> int (length (uncompressed st')) < e)"], goal_cases)
  case (1 loop e st r)
  show ?case
  proof (cases "int (length (uncompressed st)) < e")
    case False
    with 1(2) have "r = Inr st" by simp
    with False have "steps 0 st = Inr st \<and>
        (\<forall>j<0. \<exists>sj. steps j st = Inr sj \<and> int (length (uncompressed sj)) < e) \<and>
        \<not> int (length (uncompressed st)) < e" by simp
    with \<open>r = Inr st\<close> show ?thesis by blast
  next
    case True
    show ?thesis
    proof (cases "decompress_step st")
      case (Inl err)
      with True 1(2) show ?thesis by auto
    next
      case (Inr s1)
      with True 1(2) have "loop e s1 = Some r" by simp
      from 1(1) [OF this] have ih: "\<forall>st'. r = Inr st' \<longrightarrow>
           (\<exists>k. steps k s1 = Inr st' \<and>
                (\<forall>j<k. \<exists>sj. steps j s1 = Inr sj \<and> int (length (uncompressed sj)) < e) \<and>
                \<not> int (length (uncompressed st')) < e)" .
      show ?thesis
      proof (intro allI impI)
        fix st' assume "r = Inr st'"
        with ih obtain k where k: "steps k s1 = Inr st'"
          and mid: "\<forall>j<k. \<exists>sj. steps j s1 = Inr sj \<and> int (length (uncompressed sj)) < e"
          and fin: "\<not> int (length (uncompressed st')) < e" by blast
        have "steps (Suc k) st = Inr st'" using Inr k by simp
        moreover have "\<forall>j<Suc k. \<exists>sj. steps j st = Inr sj \<and> int (length (uncompressed sj)) < e"
        proof (intro allI impI)
          fix j assume "j < Suc k"
          show "\<exists>sj. steps j st = Inr sj \<and> int (length (uncompressed sj)) < e"
          proof (cases j)
            case 0
            with True show ?thesis by simp
          next
            case (Suc i)
            with \<open>j < Suc k\<close> have "i < k" by simp
            with mid Inr Suc show ?thesis by simp
          qed
        qed
        ultimately show "\<exists>k. steps k st = Inr st' \<and>
                (\<forall>j<k. \<exists>sj. steps j st = Inr sj \<and> int (length (uncompressed sj)) < e) \<and>
                \<not> int (length (uncompressed st')) < e" using fin by blast
      qed
    qed
  qed
qed

text \<open>A state at the end of the source is a fixed point of the loop body.\<close>

lemma readbit_list_exhausted:
  "position bf > 7 \<Longrightarrow> stream bf = [] \<Longrightarrow> readbit_list n bf = Inr (replicate n None, bf)"
  by (induction n) (simp_all add: readbit_exhausted)

lemma stuck_step:
  assumes "position (fp st) > 7" and "stream (fp st) = []"
  shows "decompress_step st = Inr st"
proof -
  have "readbit_list 2 (fp st) = Inr ([None, None], fp st)"
    using readbit_list_exhausted [OF assms, of 2] by (simp add: numeral_2_eq_2)
  then have "readbits 2 True (fp st) = Inr (0, fp st)"
    by (simp add: readbits_def encodebits_def)
  with assms show ?thesis
    by (simp add: decompress_step_def readbit_exhausted truthy_def)
qed

lemma stuck_loop:
  assumes "position (fp st) > 7" and "stream (fp st) = []"
    and "int (length (uncompressed st)) < e"
  shows "decompress_loop e st = None"
proof (rule ccontr)
  assume "decompress_loop e st \<noteq> None"
  then obtain r where "decompress_loop e st = Some r" by blast
  then have "\<not> (position (fp st) > 7 \<and> stream (fp st) = [] \<and> int (length (uncompressed st)) < e)"
  proof (rule decompress_loop.raw_induct [rotated 1,
      where P = "\<lambda>e st r. \<not> (position (fp st) > 7 \<and> stream (fp st) = [] \<and>
                         int (length (uncompressed st)) < e)"], goal_cases)
    case (1 loop e st r)
    show ?case
    proof
      assume s: "7 < position (fp st) \<and> stream (fp st) = [] \<and> int (length (uncompressed st)) < e"
      then have "decompress_step st = Inr st" by (simp add: stuck_step)
      with s 1(2) have "loop e st = Some r" by simp
      from 1(1) [OF this] s show False by blast
    qed
  qed
  with assms show False by blast
qed


end
